theory Spec2Isabelle
  imports Complex_Main "HOL-Library.Word"
begin

unbundle bit_operations_syntax

section \<open>Cards and hands\<close>

text \<open>
  \<^verbatim>\<open>type Hand uint64\<close>, \<^verbatim>\<open>type Card uint8\<close>, \<^verbatim>\<open>type Suit uint8\<close>, \<^verbatim>\<open>type Face uint8\<close>.
  A hand is a 64-bit register, bit \<open>i\<close> standing for card \<open>i\<close>; cards, suits, faces and
  the \<^verbatim>\<open>uint8\<close> counters are 8-bit words, so \<open>+\<close> and \<open>-\<close> wrap as in Go.
\<close>

type_synonym Hand = "64 word"
type_synonym Card = "8 word"
type_synonym Suit = "8 word"
type_synonym Face = "8 word"

definition NUM_CARDS :: "8 word" where
  "NUM_CARDS = 52"

text \<open>
  \<^verbatim>\<open>(h & (1 << c)) != 0\<close>. The constant \<open>1\<close> takes the type of the hand, and a Go shift
  by 64 or more yields 0, as \<open>push_bit\<close> does on a 64-bit word.
\<close>

definition HasCard :: "Hand \<Rightarrow> Card \<Rightarrow> bool" where
  "HasCard h c = (h AND push_bit (unat c) 1 \<noteq> 0)"

definition AddCard :: "Hand \<Rightarrow> Card \<Rightarrow> Hand" where
  "AddCard h c = h OR push_bit (unat c) 1"

definition Combine :: "Hand \<Rightarrow> Hand \<Rightarrow> Hand" where
  "Combine h1 h2 = h1 OR h2"

definition CreateHand :: "Card list \<Rightarrow> Hand" where
  "CreateHand cards = foldl AddCard 0 cards"

definition card_Suit :: "Card \<Rightarrow> Suit" where
  "card_Suit c = c div 13"

definition card_Face :: "Card \<Rightarrow> Face" where
  "card_Face c = c mod 13"

definition ToCard :: "Face \<Rightarrow> Suit \<Rightarrow> Card" where
  "ToCard f s = s * 13 + f"

text \<open>
  The index ranges of the ascending counted loops:
  \<^verbatim>\<open>for c := firstCard; c < NUM_CARDS; c++\<close> visits \<open>cards_from firstCard\<close>,
  \<^verbatim>\<open>for f := Face(0); f < 13; f++\<close> visits \<open>all_faces\<close> and
  \<^verbatim>\<open>for s := Suit(0); s < 4; s++\<close> visits \<open>all_suits\<close>.
\<close>

definition cards_from :: "Card \<Rightarrow> Card list" where
  "cards_from firstCard = map of_nat [unat firstCard ..< unat NUM_CARDS]"

definition all_faces :: "Face list" where
  "all_faces = map of_nat [0 ..< 13]"

definition all_suits :: "Suit list" where
  "all_suits = map of_nat [0 ..< 4]"

definition NumCards :: "Hand \<Rightarrow> 8 word" where
  "NumCards h =
     fold (\<lambda>c result. if HasCard h c then result + 1 else result) (cards_from 0) 0"

section \<open>Face tally\<close>

text \<open>
  \<^verbatim>\<open>result := make([]uint8, 13)\<close>, then \<^verbatim>\<open>result[f]++\<close> for every suit holding face \<open>f\<close>.
\<close>

definition FaceCounts :: "Hand \<Rightarrow> 8 word list" where
  "FaceCounts h =
     fold (\<lambda>f result.
       fold (\<lambda>s result.
         if HasCard h (ToCard f s) then result[unat f := result ! unat f + 1] else result)
         all_suits result)
       all_faces (replicate 13 0)"

section \<open>Category scorers\<close>

text \<open>
  \<open>straightFlushScore\<close>: for each suit the faces are scanned upwards with a run length
  that starts at 0; the function returns from inside the inner loop, which is the
  \<open>Some\<close> of \<open>sf_faces\<close>.
\<close>

fun sf_faces :: "Hand \<Rightarrow> Suit \<Rightarrow> Face list \<Rightarrow> nat \<Rightarrow> Face option" where
  "sf_faces h s [] runLength = None"
| "sf_faces h s (f # fs) runLength =
     (if HasCard h (ToCard f s) then
        (if runLength + 1 = 5 then Some (f + 1) else sf_faces h s fs (runLength + 1))
      else sf_faces h s fs 0)"

fun sf_suits :: "Hand \<Rightarrow> Suit list \<Rightarrow> Face" where
  "sf_suits h [] = 0"
| "sf_suits h (s # ss) =
     (case sf_faces h s all_faces 0 of Some r \<Rightarrow> r | None \<Rightarrow> sf_suits h ss)"

definition straightFlushScore :: "Hand \<Rightarrow> Face" where
  "straightFlushScore h = sf_suits h all_suits"

text \<open>
  \<open>flushScore\<close>: \<open>SuitCount\<close> and \<open>SuitMax\<close> are arrays of length 4, indexed by
  \<open>c / 13\<close>, which is below 4 for every card the loop visits.
\<close>

fun flush_loop :: "Hand \<Rightarrow> Card list \<Rightarrow> Card list \<Rightarrow> Face list \<Rightarrow> Face" where
  "flush_loop h [] SuitCount SuitMax = 0"
| "flush_loop h (c # cs) SuitCount SuitMax =
     (if HasCard h c then
        (let s = unat (card_Suit c);
             f = card_Face c;
             SuitCount' = SuitCount[s := SuitCount ! s + 1];
             SuitMax' = (if SuitMax ! s < f + 1 then SuitMax[s := f + 1] else SuitMax)
         in if SuitCount' ! s = 5 then SuitMax' ! s
            else flush_loop h cs SuitCount' SuitMax')
      else flush_loop h cs SuitCount SuitMax)"

definition flushScore :: "Hand \<Rightarrow> Face" where
  "flushScore h = flush_loop h (cards_from 0) (replicate 4 0) (replicate 4 0)"

text \<open>
  \<open>straightScore\<close>: \<^verbatim>\<open>for f := Face(12); f <= 12; f--\<close> runs downwards and stops when the
  decrement of 0 wraps to 255. The inner loop over the suits executes its body once, at
  the first suit holding the face, and leaves \<open>found\<close> false when there is none.
\<close>

function straight_loop :: "Hand \<Rightarrow> Face \<Rightarrow> nat \<Rightarrow> Face \<Rightarrow> Face" where
  "straight_loop h f runLength mx =
     (if f \<le> 12 then
        (if list_ex (\<lambda>s. HasCard h (ToCard f s)) all_suits then
           (let mx' = (if runLength = 0 then f + 1 else mx) in
            if runLength + 1 = 5 then mx'
            else straight_loop h (f - 1) (runLength + 1) mx')
         else straight_loop h (f - 1) 0 0)
      else 0)"
  by pat_completeness auto
termination
  by (relation "measure (\<lambda>(h, f, runLength, mx). unat (f + 1))")
     (simp_all, simp_all add: word_le_nat_alt unat_word_ariths)

definition straightScore :: "Hand \<Rightarrow> Face" where
  "straightScore h = straight_loop h 12 0 0"

function fourKind_loop :: "8 word list \<Rightarrow> Face \<Rightarrow> Face" where
  "fourKind_loop fc f =
     (if f \<le> 12 then (if fc ! unat f = 4 then f + 1 else fourKind_loop fc (f - 1)) else 0)"
  by pat_completeness auto
termination
  by (relation "measure (\<lambda>(fc, f). unat (f + 1))")
     (simp_all, simp_all add: word_le_nat_alt unat_word_ariths)

definition fourKindScore :: "8 word list \<Rightarrow> Face" where
  "fourKindScore fc = fourKind_loop fc 12"

definition fullHouseScore :: "8 word list \<Rightarrow> Face" where
  "fullHouseScore fc =
     (let (mx, hasTwo) =
        fold (\<lambda>f (mx, hasTwo).
          (if fc ! unat f = 3 \<and> f > mx then f + 1 else mx,
           if fc ! unat f = 2 then True else hasTwo))
          all_faces (0, False)
      in if hasTwo then mx else 0)"

definition threeKindScore :: "8 word list \<Rightarrow> Face" where
  "threeKindScore fc =
     fold (\<lambda>f mx. if fc ! unat f = 3 \<and> f > mx then f + 1 else mx) all_faces 0"

definition twoPairScore :: "8 word list \<Rightarrow> Face" where
  "twoPairScore fc =
     (let (mx, pairCount) =
        fold (\<lambda>f (mx, pairCount).
          if fc ! unat f = 2 then (if f + 1 > mx then f + 1 else mx, pairCount + 1)
          else (mx, pairCount))
          all_faces (0, 0 :: nat)
      in if pairCount \<ge> 2 then mx else 0)"

definition pairScore :: "8 word list \<Rightarrow> Face" where
  "pairScore fc =
     fold (\<lambda>f mx. if fc ! unat f = 2 \<and> f + 1 > mx then f + 1 else mx) all_faces 0"

function highCard_loop :: "8 word list \<Rightarrow> Face \<Rightarrow> Face" where
  "highCard_loop fc f =
     (if f \<le> 12 then (if fc ! unat f = 1 then f + 1 else highCard_loop fc (f - 1)) else 0)"
  by pat_completeness auto
termination
  by (relation "measure (\<lambda>(fc, f). unat (f + 1))")
     (simp_all, simp_all add: word_le_nat_alt unat_word_ariths)

definition highCardScore :: "8 word list \<Rightarrow> Face" where
  "highCardScore fc = highCard_loop fc 12"

section \<open>Composite ranker\<close>

definition Score :: "Hand \<Rightarrow> 32 word" where
  "Score h =
     (let s = straightFlushScore h in
      if s = 0 then
        (let fc = FaceCounts h; s = fourKindScore fc in
         if s = 0 then
           (let s = fullHouseScore fc in
            if s = 0 then
              (let s = flushScore h in
               if s = 0 then
                 (let s = straightScore h in
                  if s = 0 then
                    (let s = threeKindScore fc in
                     if s = 0 then
                       (let s = twoPairScore fc in
                        if s = 0 then
                          (let s = pairScore fc in
                           if s = 0 then ucast (highCardScore fc)
                           else ucast s + 13)
                        else ucast s + (2 * 13))
                     else ucast s + (3 * 13))
                  else ucast s + (4 * 13))
               else ucast s + (5 * 13))
            else ucast s + (6 * 13))
         else ucast s + (7 * 13))
      else ucast s + (8 * 13))"

definition Describe :: "Hand \<Rightarrow> string" where
  "Describe h =
     (let fc = FaceCounts h in
      if straightFlushScore h = 13 then ''royal flush''
      else if straightFlushScore h \<noteq> 0 then ''straight flush''
      else if fullHouseScore fc \<noteq> 0 then ''full house''
      else if flushScore h \<noteq> 0 then ''flush''
      else if threeKindScore fc \<noteq> 0 then ''three of a kind''
      else if twoPairScore fc \<noteq> 0 then ''two pairs''
      else if pairScore fc \<noteq> 0 then ''pair''
      else ''high Card'')"

section \<open>Equity solver\<close>

text \<open>
  \<open>_compare\<close>. The \<^verbatim>\<open>float64\<close> results are modelled by rationals, that is in exact
  arithmetic; \<open>ch\<close> is the running sum and \<open>nc\<close> the number of candidates of the loop.
\<close>

function compare_rec :: "Hand \<Rightarrow> 8 word \<Rightarrow> Hand \<Rightarrow> 8 word \<Rightarrow> Card \<Rightarrow> 8 word \<Rightarrow> rat" where
  "compare_rec h1 l1 h2 l2 firstCard lookahead =
     (if lookahead = 0 then
        (let s1 = Score h1; s2 = Score h2 in
         if s1 > s2 then 1 else if s1 < s2 then 0 else 1 / 2)
      else
        (let (ch, nc) =
           (if l1 < l2 then
              foldl (\<lambda>(ch, nc) c.
                if \<not> HasCard h1 c \<and> \<not> HasCard h2 c then
                  (ch + compare_rec (AddCard h1 c) (l1 + 1) h2 l2 (c + 1) (lookahead - 1),
                   nc + 1)
                else (ch, nc)) (0, 0 :: nat) (cards_from firstCard)
            else if l2 < l1 then
              foldl (\<lambda>(ch, nc) c.
                if \<not> HasCard h1 c \<and> \<not> HasCard h2 c then
                  (ch + compare_rec h1 l1 (AddCard h2 c) (l2 + 1) (c + 1) (lookahead - 1),
                   nc + 1)
                else (ch, nc)) (0, 0) (cards_from firstCard)
            else
              foldl (\<lambda>(ch, nc) c.
                if \<not> HasCard h1 c \<and> \<not> HasCard h2 c then
                  (ch + compare_rec (AddCard h1 c) (l1 + 1) (AddCard h2 c) (l2 + 1) (c + 1)
                          (lookahead - 1),
                   nc + 1)
                else (ch, nc)) (0, 0) (cards_from firstCard))
         in if nc = 0 then 1 / 2 else ch / of_nat nc))"
  by pat_completeness auto
termination
  by (relation "measure (\<lambda>(h1, l1, h2, l2, firstCard, lookahead). unat lookahead)")
     (auto simp: unat_minus_one unat_gt_0)

declare compare_rec.simps [simp del]

definition Compare :: "Hand \<Rightarrow> Hand \<Rightarrow> 8 word \<Rightarrow> rat" where
  "Compare h1 h2 lookahead =
     (let l1 = NumCards h1;
          l2 = NumCards h2;
          s = (if l1 > l2 then lookahead - l2
               else if l1 < l2 then lookahead - l1
               else lookahead - l1)
      in compare_rec h1 l1 h2 l2 0 s)"

text \<open>
  The specification's wording of the composite rank, to be compared with \<open>Score\<close>: the
  results of the nine scorers in the fixed order, the first nonzero one taken, and the
  tier offset \<open>13 * t\<close> added, \<open>t\<close> counting from 8 down to 0.
\<close>

definition scorer_results :: "Hand \<Rightarrow> Face list" where
  "scorer_results h =
     [straightFlushScore h, fourKindScore (FaceCounts h), fullHouseScore (FaceCounts h),
      flushScore h, straightScore h, threeKindScore (FaceCounts h),
      twoPairScore (FaceCounts h), pairScore (FaceCounts h), highCardScore (FaceCounts h)]"

fun first_nonzero_from :: "nat \<Rightarrow> Face list \<Rightarrow> 32 word" where
  "first_nonzero_from t [] = 0"
| "first_nonzero_from t (s # ss) =
     (if s \<noteq> 0 then ucast s + 13 * of_nat t else first_nonzero_from (t - 1) ss)"

definition Rank_spec :: "Hand \<Rightarrow> 32 word" where
  "Rank_spec h = first_nonzero_from 8 (scorer_results h)"

text \<open>
  The specification's wording of the face tally: the number of suits in which a face
  is present in the hand.
\<close>

definition suits_holding :: "Hand \<Rightarrow> Face \<Rightarrow> nat" where
  "suits_holding h f = length (filter (\<lambda>s. HasCard h (ToCard f s)) all_suits)"

text \<open>
  The specification's wording of the straight scorer: a face hits when any suit holds
  it, \<open>run5 h t\<close> says that the five faces from \<open>t\<close> downwards all hit, and the scan
  from the Ace downwards returns the top face, plus one, of the first such run. The
  lowest top face of a run is 4 (the 6, above 5, 4, 3 and 2): the Ace is not low.
\<close>

definition face_hit :: "Hand \<Rightarrow> Face \<Rightarrow> bool" where
  "face_hit h f = list_ex (\<lambda>s. HasCard h (ToCard f s)) all_suits"

definition run5 :: "Hand \<Rightarrow> Face \<Rightarrow> bool" where
  "run5 h t =
     (face_hit h t \<and> face_hit h (t - 1) \<and> face_hit h (t - 2) \<and> face_hit h (t - 3) \<and>
      face_hit h (t - 4))"

fun first_run :: "Hand \<Rightarrow> Face list \<Rightarrow> Face" where
  "first_run h [] = 0"
| "first_run h (t # ts) = (if run5 h t then t + 1 else first_run h ts)"

definition straight_spec :: "Hand \<Rightarrow> Face" where
  "straight_spec h = first_run h [12, 11, 10, 9, 8, 7, 6, 5, 4]"

text \<open>
  The specification's wording of "some face has tally \<open>k\<close>" in a hand.
\<close>

definition has_tally :: "Hand \<Rightarrow> 8 word \<Rightarrow> bool" where
  "has_tally h k = list_ex (\<lambda>f. FaceCounts h ! unat f = k) all_faces"

section \<open>Evaluation on concrete hands\<close>

lemma all_faces_list: "all_faces = [0, 1, 2, 3, 4, 5, 6, 7, 8, 9, 10, 11, 12]"
  by (simp add: all_faces_def upt_rec)

lemma all_suits_list: "all_suits = [0, 1, 2, 3]"
  by (simp add: all_suits_def upt_rec)

text \<open>The 52 card indices, one row for each suit.\<close>

lemma cards_from_0:
  "cards_from 0 =
     [0, 1, 2, 3, 4, 5, 6, 7, 8, 9, 10, 11, 12] @
     [13, 14, 15, 16, 17, 18, 19, 20, 21, 22, 23, 24, 25] @
     [26, 27, 28, 29, 30, 31, 32, 33, 34, 35, 36, 37, 38] @
     [39, 40, 41, 42, 43, 44, 45, 46, 47, 48, 49, 50, 51]"
  by (simp add: cards_from_def NUM_CARDS_def upt_rec)

lemma replicate13: "replicate 13 x = [x, x, x, x, x, x, x, x, x, x, x, x, x]"
  by (simp add: eval_nat_numeral)

lemma replicate4: "replicate 4 x = [x, x, x, x]"
  by (simp add: eval_nat_numeral)

text \<open>The decrement of face 0 wraps to 255, which ends the descending loops.\<close>

lemma wrapped_face: "\<not> (- 1 :: 8 word) \<le> 12"
  using word_order.extremum_unique [of "12 :: 8 word"] by simp

lemmas hand_eval =
  CreateHand_def AddCard_def HasCard_def ToCard_def card_Suit_def card_Face_def
  all_faces_list all_suits_list cards_from_0 replicate13 replicate4 wrapped_face

lemmas scorer_defs =
  straightFlushScore_def fourKindScore_def fullHouseScore_def flushScore_def
  straightScore_def threeKindScore_def twoPairScore_def pairScore_def highCardScore_def

section \<open>The composite ranker\<close>

text \<open>
  Claim C4. For every hand, \<open>Score\<close> is the result of the first scorer that returns
  nonzero, in the order straight-flush, four-of-a-kind, full house, flush, straight,
  three-of-a-kind, two-pair, pair, high-card, plus the tier offset \<open>13 * t\<close> with \<open>t\<close>
  counting from 8 for the straight-flush down to 0 for the high card.
\<close>

theorem Score_first_nonzero_scorer: "Score h = Rank_spec h"
  by (simp add: Score_def Rank_spec_def scorer_results_def Let_def)

text \<open>
  Claim C10. The empty hand has \<open>Score\<close> 0 and is described as \<open>high Card\<close>; each of
  the nine scorers, the high-card scorer included, returns the sentinel 0 on it.
\<close>

theorem empty_hand_scores_zero:
  "Score 0 = 0 \<and> Describe 0 = ''high Card'' \<and>
   straightFlushScore 0 = 0 \<and> fourKindScore (FaceCounts 0) = 0 \<and>
   fullHouseScore (FaceCounts 0) = 0 \<and> flushScore 0 = 0 \<and> straightScore 0 = 0 \<and>
   threeKindScore (FaceCounts 0) = 0 \<and> twoPairScore (FaceCounts 0) = 0 \<and>
   pairScore (FaceCounts 0) = 0 \<and> highCardScore (FaceCounts 0) = 0"
  by (simp add: Score_def Describe_def FaceCounts_def hand_eval scorer_defs)

text \<open>
  Claim C1 says that \<open>Describe\<close> names the tier that \<open>Score\<close> selects. \<open>Describe\<close> has
  no case for four of a kind and none for a straight. The four aces with the king of
  spades score 104, in the four-of-a-kind tier (91 + 13), and the hand 2, 3, 4, 5 of
  spades with the 6 of hearts scores 57, in the straight tier (52 + 5); both are
  described as \<open>high Card\<close>.
\<close>

theorem Describe_misses_four_kind_and_straight:
  "Score (CreateHand [12, 25, 38, 51, 11]) = 104 \<and>
   Describe (CreateHand [12, 25, 38, 51, 11]) = ''high Card'' \<and>
   Score (CreateHand [0, 1, 2, 3, 17]) = 57 \<and>
   Describe (CreateHand [0, 1, 2, 3, 17]) = ''high Card''"
  by (simp add: Score_def Describe_def FaceCounts_def hand_eval scorer_defs)

text \<open>
  Claim C7 says that the full-house scorer returns the highest face of tally 3, plus
  one, whenever a face of tally 2 and a face of tally 3 exist. The loop tests
  \<open>f > max\<close> where the pair scorers test \<open>f + 1 > max\<close>, so three 2s (face 0) are never
  recorded: the hand 2, 2, 2, 3, 3 has tallies 3 and 2 and the scorer returns 0, not 1.
  A triple on the face just above a recorded triple is skipped in the same way: with
  triples of 5s and 6s and a pair of 2s the scorer returns 4, not 5.
\<close>

theorem fullHouseScore_misses_low_triple:
  "FaceCounts (CreateHand [0, 13, 26, 1, 14]) = [3, 2, 0, 0, 0, 0, 0, 0, 0, 0, 0, 0, 0] \<and>
   fullHouseScore (FaceCounts (CreateHand [0, 13, 26, 1, 14])) = 0 \<and>
   FaceCounts (CreateHand [3, 16, 29, 4, 17, 30, 0, 13]) =
     [2, 0, 0, 3, 3, 0, 0, 0, 0, 0, 0, 0, 0] \<and>
   fullHouseScore (FaceCounts (CreateHand [3, 16, 29, 4, 17, 30, 0, 13])) = 4"
  by (simp add: FaceCounts_def fullHouseScore_def hand_eval)

section \<open>The equity solver\<close>

lemma compare_rec_base:
  "compare_rec h1 l1 h2 l2 firstCard 0 =
     (if Score h1 > Score h2 then 1 else if Score h1 < Score h2 then 0 else 1 / 2)"
  by (subst compare_rec.simps) (simp add: Let_def)

text \<open>
  Claim C2. When both hands already hold \<open>lookahead\<close> cards, no card is drawn and
  \<open>Compare\<close> returns exactly 1 if \<open>Score h1 > Score h2\<close>, 0 if \<open>Score h1 < Score h2\<close>
  and 1/2 if the scores are equal.
\<close>

theorem Compare_complete_hands:
  assumes "NumCards h1 = lookahead" and "NumCards h2 = lookahead"
  shows "Compare h1 h2 lookahead =
           (if Score h1 > Score h2 then 1 else if Score h1 < Score h2 then 0 else 1 / 2)"
  using assms by (simp add: Compare_def compare_rec_base)

theorem Compare_complete_hands_witness:
  "NumCards (CreateHand [8, 9, 10, 11, 12]) = 5 \<and>
   NumCards (CreateHand [0, 13, 26, 1, 14]) = 5 \<and>
   Score (CreateHand [8, 9, 10, 11, 12]) = 117 \<and>
   Score (CreateHand [0, 13, 26, 1, 14]) = 15 \<and>
   Compare (CreateHand [8, 9, 10, 11, 12]) (CreateHand [0, 13, 26, 1, 14]) 5 = 1"
proof -
  have n1: "NumCards (CreateHand [8, 9, 10, 11, 12]) = 5"
    by (simp add: NumCards_def hand_eval)
  have n2: "NumCards (CreateHand [0, 13, 26, 1, 14]) = 5"
    by (simp add: NumCards_def hand_eval)
  have s1: "Score (CreateHand [8, 9, 10, 11, 12]) = 117"
    by (simp add: Score_def FaceCounts_def hand_eval scorer_defs)
  have s2: "Score (CreateHand [0, 13, 26, 1, 14]) = 15"
    by (simp add: Score_def FaceCounts_def hand_eval scorer_defs)
  show ?thesis
    using n1 n2 s1 s2 Compare_complete_hands [OF n1 n2] by simp
qed

subsection \<open>The candidate loop\<close>

text \<open>
  Two facts about the loop that sums the sub-results \<open>g c\<close> over the candidates \<open>ok c\<close>
  and counts them: sub-results in \<open>[0, 1]\<close> keep the sum between 0 and the count, and
  two loops over the same candidates whose sub-results add up to 1 have sums that add
  up to the count.
\<close>

lemma draw_loop_bounds:
  fixes g :: "Card \<Rightarrow> rat"
  assumes "\<And>c. c \<in> set cs \<Longrightarrow> ok c \<Longrightarrow> 0 \<le> g c \<and> g c \<le> 1"
    and "0 \<le> fst acc" and "fst acc \<le> of_nat (snd acc)"
  shows "0 \<le> fst (foldl (\<lambda>(ch, nc) c. if ok c then (ch + g c, nc + 1) else (ch, nc)) acc cs) \<and>
         fst (foldl (\<lambda>(ch, nc) c. if ok c then (ch + g c, nc + 1) else (ch, nc)) acc cs)
           \<le> of_nat (snd (foldl (\<lambda>(ch, nc) c. if ok c then (ch + g c, nc + 1) else (ch, nc)) acc cs))"
  using assms
proof (induction cs arbitrary: acc)
  case Nil
  then show ?case by simp
next
  case (Cons c cs)
  obtain ch nc where acc: "acc = (ch, nc)" by (cases acc)
  show ?case
  proof (cases "ok c")
    case True
    have g: "0 \<le> g c \<and> g c \<le> 1" using Cons.prems(1) [of c] True by simp
    have "0 \<le> ch + g c" and "ch + g c \<le> of_nat (nc + 1)"
      using g Cons.prems(2,3) acc by simp_all
    then show ?thesis
      using Cons.IH [of "(ch + g c, nc + 1)"] Cons.prems(1) True acc by simp
  next
    case False
    then show ?thesis
      using Cons.IH [of acc] Cons.prems acc by simp
  qed
qed


lemma mean_bounds:
  fixes ch :: rat
  assumes "0 \<le> ch" and "ch \<le> of_nat nc"
  shows "0 \<le> (if nc = 0 then 1 / 2 else ch / of_nat nc) \<and> (if nc = 0 then 1 / 2 else ch / of_nat nc) \<le> 1"
  using assms by (simp add: divide_le_eq)


subsection \<open>The recursion\<close>

lemma compare_rec_step:
  "lookahead \<noteq> 0 \<Longrightarrow>
   compare_rec h1 l1 h2 l2 firstCard lookahead =
     (let r =
        (if l1 < l2 then
           foldl (\<lambda>(ch, nc) c.
             if \<not> HasCard h1 c \<and> \<not> HasCard h2 c then
               (ch + compare_rec (AddCard h1 c) (l1 + 1) h2 l2 (c + 1) (lookahead - 1), nc + 1)
             else (ch, nc)) (0, 0 :: nat) (cards_from firstCard)
         else if l2 < l1 then
           foldl (\<lambda>(ch, nc) c.
             if \<not> HasCard h1 c \<and> \<not> HasCard h2 c then
               (ch + compare_rec h1 l1 (AddCard h2 c) (l2 + 1) (c + 1) (lookahead - 1), nc + 1)
             else (ch, nc)) (0, 0) (cards_from firstCard)
         else
           foldl (\<lambda>(ch, nc) c.
             if \<not> HasCard h1 c \<and> \<not> HasCard h2 c then
               (ch + compare_rec (AddCard h1 c) (l1 + 1) (AddCard h2 c) (l2 + 1) (c + 1)
                       (lookahead - 1), nc + 1)
             else (ch, nc)) (0, 0) (cards_from firstCard))
      in if snd r = 0 then 1 / 2 else fst r / of_nat (snd r))"
  by (subst compare_rec.simps) (simp add: Let_def case_prod_beta)

lemma compare_rec_bounds:
  "0 \<le> compare_rec h1 l1 h2 l2 firstCard lookahead \<and>
   compare_rec h1 l1 h2 l2 firstCard lookahead \<le> 1"
proof (induction h1 l1 h2 l2 firstCard lookahead rule: compare_rec.induct)
  case (1 h1 l1 h2 l2 firstCard lookahead)
  show ?case
  proof (cases "lookahead = 0")
    case True
    then show ?thesis by (simp add: compare_rec_base)
  next
    case False
    note step = compare_rec_step [OF False, of h1 l1 h2 l2 firstCard]
    consider (lt) "l1 < l2" | (gt) "\<not> l1 < l2" "l2 < l1" | (eq) "\<not> l1 < l2" "\<not> l2 < l1"
      by blast
    then show ?thesis
    proof cases
      case lt
      have ih: "\<And>c. c \<in> set (cards_from firstCard) \<Longrightarrow> \<not> HasCard h1 c \<and> \<not> HasCard h2 c \<Longrightarrow>
          0 \<le> compare_rec (AddCard h1 c) (l1 + 1) h2 l2 (c + 1) (lookahead - 1) \<and>
          compare_rec (AddCard h1 c) (l1 + 1) h2 l2 (c + 1) (lookahead - 1) \<le> 1"
        using "1.IH"(1) [OF False lt] by blast
      show ?thesis
        unfolding step Let_def using lt
          draw_loop_bounds [of "cards_from firstCard" "\<lambda>c. \<not> HasCard h1 c \<and> \<not> HasCard h2 c"
            "\<lambda>c. compare_rec (AddCard h1 c) (l1 + 1) h2 l2 (c + 1) (lookahead - 1)" "(0, 0)", OF ih]
        by (simp add: mean_bounds)
    next
      case gt
      have ih: "\<And>c. c \<in> set (cards_from firstCard) \<Longrightarrow> \<not> HasCard h1 c \<and> \<not> HasCard h2 c \<Longrightarrow>
          0 \<le> compare_rec h1 l1 (AddCard h2 c) (l2 + 1) (c + 1) (lookahead - 1) \<and>
          compare_rec h1 l1 (AddCard h2 c) (l2 + 1) (c + 1) (lookahead - 1) \<le> 1"
        using "1.IH"(2) [OF False gt] by blast
      show ?thesis
        unfolding step Let_def using gt
          draw_loop_bounds [of "cards_from firstCard" "\<lambda>c. \<not> HasCard h1 c \<and> \<not> HasCard h2 c"
            "\<lambda>c. compare_rec h1 l1 (AddCard h2 c) (l2 + 1) (c + 1) (lookahead - 1)" "(0, 0)", OF ih]
        by (simp add: mean_bounds)
    next
      case eq
      have ih: "\<And>c. c \<in> set (cards_from firstCard) \<Longrightarrow> \<not> HasCard h1 c \<and> \<not> HasCard h2 c \<Longrightarrow>
          0 \<le> compare_rec (AddCard h1 c) (l1 + 1) (AddCard h2 c) (l2 + 1) (c + 1) (lookahead - 1) \<and>
          compare_rec (AddCard h1 c) (l1 + 1) (AddCard h2 c) (l2 + 1) (c + 1) (lookahead - 1) \<le> 1"
        using "1.IH"(3) [OF False eq] by blast
      show ?thesis
        unfolding step Let_def using eq
          draw_loop_bounds [of "cards_from firstCard" "\<lambda>c. \<not> HasCard h1 c \<and> \<not> HasCard h2 c"
            "\<lambda>c. compare_rec (AddCard h1 c) (l1 + 1) (AddCard h2 c) (l2 + 1) (c + 1) (lookahead - 1)" "(0, 0)", OF ih]
        by (simp add: mean_bounds)
    qed
  qed
qed




text \<open>
  Claim C5 says that \<open>Compare\<close> fails with an invalid-argument condition when
  \<open>lookahead < max (NumCards h1) (NumCards h2)\<close>. \<open>Compare\<close> returns a \<^verbatim>\<open>float64\<close> and
  has no check and no error result. With the full deck in both hands and lookahead 0
  the step count is \<open>0 - 52\<close>, which wraps to 204, and the call returns 1/2; with the
  2 of spades against the empty hand and lookahead 0 it returns 1.
\<close>

theorem Compare_short_lookahead_returns:
  "(0 :: 8 word) <
     max (NumCards (CreateHand (cards_from 0))) (NumCards (CreateHand (cards_from 0))) \<and>
   (0 :: 8 word) - NumCards (CreateHand (cards_from 0)) = 204 \<and>
   Compare (CreateHand (cards_from 0)) (CreateHand (cards_from 0)) 0 = 1 / 2 \<and>
   (0 :: 8 word) < max (NumCards (CreateHand [0])) (NumCards 0) \<and>
   Compare (CreateHand [0]) 0 0 = 1"
proof -
  have h: "CreateHand (cards_from 0) = 4503599627370495"
    by (simp add: hand_eval)
  have n: "NumCards 4503599627370495 = 52"
    by (simp add: NumCards_def hand_eval)
  have n1: "NumCards (CreateHand [0]) = 1"
    by (simp add: NumCards_def hand_eval)
  have n0: "NumCards 0 = 0"
    by (simp add: NumCards_def hand_eval)
  have r: "compare_rec 4503599627370495 52 4503599627370495 52 0 204 = 1 / 2"
    by (simp add: compare_rec.simps hand_eval)
  have w: "(- 52 :: 8 word) = 204"
    by simp
  have c: "Compare 4503599627370495 4503599627370495 0 = 1 / 2"
    by (simp add: Compare_def n w r)
  have s1: "Score (CreateHand [0]) = 1"
    by (simp add: Score_def FaceCounts_def hand_eval scorer_defs)
  have s0: "Score 0 = 0"
    by (simp add: Score_def FaceCounts_def hand_eval scorer_defs)
  have c1: "Compare (CreateHand [0]) 0 0 = 1"
    by (simp add: Compare_def n1 n0 compare_rec_base s1 s0)
  show ?thesis
    by (simp add: h n n1 n0 c c1)
qed

text \<open>
  Claim C5 as amended. When \<open>lookahead < max (NumCards h1) (NumCards h2)\<close> the call
  does not fail: it returns the result of \<open>_compare\<close> run with the 8-bit step count
  \<open>lookahead - min (NumCards h1) (NumCards h2)\<close>, wrapped around when negative, and that
  result lies between 0 and 1.
\<close>

theorem Compare_short_lookahead_unchecked:
  assumes "lookahead < max (NumCards h1) (NumCards h2)"
  shows "Compare h1 h2 lookahead =
           compare_rec h1 (NumCards h1) h2 (NumCards h2) 0
             (lookahead - min (NumCards h1) (NumCards h2)) \<and>
         0 \<le> Compare h1 h2 lookahead \<and> Compare h1 h2 lookahead \<le> 1"
proof -
  have "Compare h1 h2 lookahead =
          compare_rec h1 (NumCards h1) h2 (NumCards h2) 0
            (lookahead - min (NumCards h1) (NumCards h2))"
    by (auto simp: Compare_def Let_def min_def)
  then show ?thesis
    using compare_rec_bounds by simp
qed

theorem Compare_short_lookahead_unchecked_witness:
  "(0 :: 8 word) <
     max (NumCards (CreateHand (cards_from 0))) (NumCards (CreateHand (cards_from 0))) \<and>
   Compare (CreateHand (cards_from 0)) (CreateHand (cards_from 0)) 0 =
     compare_rec (CreateHand (cards_from 0)) 52 (CreateHand (cards_from 0)) 52 0 204 \<and>
   0 \<le> Compare (CreateHand (cards_from 0)) (CreateHand (cards_from 0)) 0 \<and>
   Compare (CreateHand (cards_from 0)) (CreateHand (cards_from 0)) 0 \<le> 1"
proof -
  have h: "CreateHand (cards_from 0) = 4503599627370495"
    by (simp add: hand_eval)
  have n: "NumCards 4503599627370495 = 52"
    by (simp add: NumCards_def hand_eval)
  have w: "(- 52 :: 8 word) = 204"
    by simp
  have lt: "(0 :: 8 word) < max (NumCards 4503599627370495) (NumCards 4503599627370495)"
    by (simp add: n)
  show ?thesis
    using lt Compare_short_lookahead_unchecked [OF lt] by (simp add: h n w)
qed

section \<open>The face tally\<close>

text \<open>
  The inner loop adds to entry \<open>n\<close> the number of suits that pass the test, and the
  card count is the number of cards that pass it.
\<close>

lemma tally_inner_loop:
  fixes result :: "8 word list"
  shows "n < length result \<Longrightarrow>
    fold (\<lambda>s r. if P s then r[n := r ! n + 1] else r) ss result =
      result[n := result ! n + of_nat (length (filter P ss))]"
  by (induction ss arbitrary: result) (simp_all add: add.assoc)

lemma FaceCounts_closed: "FaceCounts h = map (\<lambda>f. of_nat (suits_holding h f)) all_faces"
  unfolding FaceCounts_def suits_holding_def
  by (simp add: all_faces_list tally_inner_loop replicate13)

lemma count_loop:
  fixes r0 :: "8 word"
  shows "fold (\<lambda>c r. if P c then r + 1 else r) cs r0 = r0 + of_nat (length (filter P cs))"
  by (induction cs arbitrary: r0) (simp_all add: add.assoc)

lemma NumCards_closed: "NumCards h = of_nat (length (filter (HasCard h) (cards_from 0)))"
  by (simp add: NumCards_def count_loop)

lemma length_filter_of_bool: "length (filter P xs) = sum_list (map (\<lambda>x. of_bool (P x)) xs)"
  by (induction xs) simp_all

lemma suits_holding_le: "suits_holding h f \<le> 4"
proof -
  have "suits_holding h f \<le> length all_suits"
    unfolding suits_holding_def by (rule length_filter_le)
  then show ?thesis by (simp add: all_suits_list)
qed

lemma tally_total:
  "sum_list (map (suits_holding h) all_faces) = length (filter (HasCard h) (cards_from 0))"
  unfolding suits_holding_def length_filter_of_bool
  by (simp add: all_faces_list all_suits_list cards_from_0 ToCard_def)

lemma unat_small_count: "n \<le> 52 \<Longrightarrow> unat (of_nat n :: 8 word) = n"
  by (simp add: unat_of_nat)

lemma FaceCounts_facts:
  "length (FaceCounts h) = 13 \<and> list_all (\<lambda>x. x \<le> 4) (FaceCounts h) \<and>
   sum_list (map unat (FaceCounts h)) = unat (NumCards h)"
proof -
  have len: "length (FaceCounts h) = 13"
    by (simp add: FaceCounts_closed all_faces_list)
  have small: "unat (of_nat (suits_holding h f) :: 8 word) = suits_holding h f" for f
    using suits_holding_le [of h f] by (simp add: unat_small_count)
  have "of_nat (suits_holding h f) \<le> (4 :: 8 word)" for f
    using suits_holding_le [of h f] by (simp add: word_le_nat_alt small)
  then have le: "list_all (\<lambda>x. x \<le> 4) (FaceCounts h)"
    by (simp add: FaceCounts_closed list_all_iff)
  have "length (filter (HasCard h) (cards_from 0)) \<le> length (cards_from 0)"
    by (rule length_filter_le)
  then have "length (filter (HasCard h) (cards_from 0)) \<le> 52"
    by (simp add: cards_from_0)
  then have n: "unat (NumCards h) = length (filter (HasCard h) (cards_from 0))"
    by (simp add: NumCards_closed unat_small_count)
  have "map unat (FaceCounts h) = map (suits_holding h) all_faces"
    by (simp add: FaceCounts_closed small)
  then have "sum_list (map unat (FaceCounts h)) = unat (NumCards h)"
    by (simp add: tally_total n)
  with len le show ?thesis by simp
qed

text \<open>
  Claim C9. For every hand with no bit set at position 52 or above, \<open>FaceCounts\<close> has
  13 entries, each between 0 and 4, and their sum is \<open>NumCards\<close>. (Both scans read
  the bits 0 to 51 only, so the higher bits play no role.)
\<close>

theorem FaceCounts_entries_and_total:
  assumes "drop_bit 52 h = 0"
  shows "length (FaceCounts h) = 13 \<and> list_all (\<lambda>x. x \<le> 4) (FaceCounts h) \<and>
         sum_list (map unat (FaceCounts h)) = unat (NumCards h)"
  by (rule FaceCounts_facts)

theorem FaceCounts_entries_and_total_witness:
  "drop_bit 52 (CreateHand [0, 13, 26, 1, 14]) = 0 \<and>
   FaceCounts (CreateHand [0, 13, 26, 1, 14]) = [3, 2, 0, 0, 0, 0, 0, 0, 0, 0, 0, 0, 0] \<and>
   NumCards (CreateHand [0, 13, 26, 1, 14]) = 5 \<and>
   length (FaceCounts (CreateHand [0, 13, 26, 1, 14])) = 13 \<and>
   list_all (\<lambda>x. x \<le> 4) (FaceCounts (CreateHand [0, 13, 26, 1, 14])) \<and>
   sum_list (map unat (FaceCounts (CreateHand [0, 13, 26, 1, 14]))) =
     unat (NumCards (CreateHand [0, 13, 26, 1, 14]))"
proof -
  have d: "drop_bit 52 (CreateHand [0, 13, 26, 1, 14]) = 0"
    by (simp add: hand_eval)
  have fc: "FaceCounts (CreateHand [0, 13, 26, 1, 14]) = [3, 2, 0, 0, 0, 0, 0, 0, 0, 0, 0, 0, 0]"
    by (simp add: FaceCounts_def hand_eval)
  have n: "NumCards (CreateHand [0, 13, 26, 1, 14]) = 5"
    by (simp add: NumCards_def hand_eval)
  show ?thesis
    using d fc n FaceCounts_entries_and_total [OF d] by simp
qed

section \<open>The straight scorer\<close>

text \<open>One step of the descending loop, by what the face does.\<close>

lemma straight_hit:
  "f \<le> 12 \<Longrightarrow> face_hit h f \<Longrightarrow> r + 1 \<noteq> 5 \<Longrightarrow>
   straight_loop h f r mx = straight_loop h (f - 1) (r + 1) (if r = 0 then f + 1 else mx)"
  by (subst straight_loop.simps) (simp add: face_hit_def Let_def del: straight_loop.simps)

lemma straight_done:
  "f \<le> 12 \<Longrightarrow> face_hit h f \<Longrightarrow> r + 1 = 5 \<Longrightarrow>
   straight_loop h f r mx = (if r = 0 then f + 1 else mx)"
  by (subst straight_loop.simps) (simp add: face_hit_def Let_def del: straight_loop.simps)

lemma straight_miss:
  "f \<le> 12 \<Longrightarrow> \<not> face_hit h f \<Longrightarrow> straight_loop h f r mx = straight_loop h (f - 1) 0 0"
  by (subst straight_loop.simps) (simp add: face_hit_def del: straight_loop.simps)

lemma straight_end: "straight_loop h (- 1) r mx = 0"
  by (subst straight_loop.simps) (simp add: wrapped_face del: straight_loop.simps)

lemma straightScore_closed: "straightScore h = straight_spec h"
proof -
  define R where "R f = straight_loop h f 0 0" for f
  have miss: "f \<le> 12 \<Longrightarrow> \<not> face_hit h f \<Longrightarrow> straight_loop h f r mx = R (f - 1)" for f r mx
    unfolding R_def by (rule straight_miss)
  note step = straight_hit straight_done miss straight_end run5_def
  have e: "R (- 1) = 0"
    unfolding R_def by (rule straight_end)
  have r0: "R 0 = 0"
    unfolding R_def [of 0]
    by (cases "face_hit h 0"; simp add: step e del: straight_loop.simps)
  have r1: "R 1 = 0"
    unfolding R_def [of 1]
    by (cases "face_hit h 1"; cases "face_hit h 0"; simp add: step e r0 del: straight_loop.simps)
  have r2: "R 2 = 0"
    unfolding R_def [of 2]
    by (cases "face_hit h 2"; cases "face_hit h 1"; cases "face_hit h 0";
        simp add: step e r0 r1 del: straight_loop.simps)
  have r3: "R 3 = 0"
    unfolding R_def [of 3]
    by (cases "face_hit h 3"; cases "face_hit h 2"; cases "face_hit h 1"; cases "face_hit h 0";
        simp add: step e r0 r1 r2 del: straight_loop.simps)
  have r4: "R 4 = first_run h [4]"
    unfolding R_def [of 4]
    by (cases "face_hit h 4"; cases "face_hit h 3"; cases "face_hit h 2"; cases "face_hit h 1";
        cases "face_hit h 0"; simp add: step e r0 r1 r2 r3 del: straight_loop.simps)
  have r5: "R 5 = first_run h [5, 4]"
    unfolding R_def [of 5]
    by (cases "face_hit h 5"; cases "face_hit h 4"; cases "face_hit h 3"; cases "face_hit h 2";
        cases "face_hit h 1"; simp add: step r0 r1 r2 r3 r4 del: straight_loop.simps)
  have r6: "R 6 = first_run h [6, 5, 4]"
    unfolding R_def [of 6]
    by (cases "face_hit h 6"; cases "face_hit h 5"; cases "face_hit h 4"; cases "face_hit h 3";
        cases "face_hit h 2"; simp add: step r1 r2 r3 r4 r5 del: straight_loop.simps)
  have r7: "R 7 = first_run h [7, 6, 5, 4]"
    unfolding R_def [of 7]
    by (cases "face_hit h 7"; cases "face_hit h 6"; cases "face_hit h 5"; cases "face_hit h 4";
        cases "face_hit h 3"; simp add: step r2 r3 r4 r5 r6 del: straight_loop.simps)
  have r8: "R 8 = first_run h [8, 7, 6, 5, 4]"
    unfolding R_def [of 8]
    by (cases "face_hit h 8"; cases "face_hit h 7"; cases "face_hit h 6"; cases "face_hit h 5";
        cases "face_hit h 4"; simp add: step r3 r4 r5 r6 r7 del: straight_loop.simps)
  have r9: "R 9 = first_run h [9, 8, 7, 6, 5, 4]"
    unfolding R_def [of 9]
    by (cases "face_hit h 9"; cases "face_hit h 8"; cases "face_hit h 7"; cases "face_hit h 6";
        cases "face_hit h 5"; simp add: step r4 r5 r6 r7 r8 del: straight_loop.simps)
  have r10: "R 10 = first_run h [10, 9, 8, 7, 6, 5, 4]"
    unfolding R_def [of 10]
    by (cases "face_hit h 10"; cases "face_hit h 9"; cases "face_hit h 8"; cases "face_hit h 7";
        cases "face_hit h 6"; simp add: step r5 r6 r7 r8 r9 del: straight_loop.simps)
  have r11: "R 11 = first_run h [11, 10, 9, 8, 7, 6, 5, 4]"
    unfolding R_def [of 11]
    by (cases "face_hit h 11"; cases "face_hit h 10"; cases "face_hit h 9"; cases "face_hit h 8";
        cases "face_hit h 7"; simp add: step r6 r7 r8 r9 r10 del: straight_loop.simps)
  have r12: "R 12 = first_run h [12, 11, 10, 9, 8, 7, 6, 5, 4]"
    unfolding R_def [of 12]
    by (cases "face_hit h 12"; cases "face_hit h 11"; cases "face_hit h 10"; cases "face_hit h 9";
        cases "face_hit h 8"; simp add: step r7 r8 r9 r10 r11 del: straight_loop.simps)
  show ?thesis
    unfolding straightScore_def straight_spec_def using r12 by (simp add: R_def)
qed

text \<open>
  Claim C8. The straight scorer scans the faces from the Ace (12) down to the 2 (0),
  counts a face as hit when any suit holds it, and returns the top face plus one of
  the first run of five consecutive hit faces. The Ace is never low: a hand in which
  A, 2, 3, 4, 5 hit and no five faces in sequence below the Ace-high order do scores 0.
\<close>

theorem straightScore_descending_no_wheel:
  "straightScore h = straight_spec h \<and>
   (face_hit h 12 \<and> face_hit h 0 \<and> face_hit h 1 \<and> face_hit h 2 \<and> face_hit h 3 \<and>
    \<not> list_ex (run5 h) [12, 11, 10, 9, 8, 7, 6, 5, 4] \<longrightarrow> straightScore h = 0)"
  by (simp add: straightScore_closed straight_spec_def)

theorem straightScore_descending_no_wheel_witness:
  "face_hit (CreateHand [12, 0, 1, 2, 3]) 12 \<and> face_hit (CreateHand [12, 0, 1, 2, 3]) 0 \<and>
   face_hit (CreateHand [12, 0, 1, 2, 3]) 1 \<and> face_hit (CreateHand [12, 0, 1, 2, 3]) 2 \<and>
   face_hit (CreateHand [12, 0, 1, 2, 3]) 3 \<and>
   \<not> list_ex (run5 (CreateHand [12, 0, 1, 2, 3])) [12, 11, 10, 9, 8, 7, 6, 5, 4] \<and>
   straightScore (CreateHand [12, 0, 1, 2, 3]) = straight_spec (CreateHand [12, 0, 1, 2, 3]) \<and>
   straightScore (CreateHand [12, 0, 1, 2, 3]) = 0"
proof -
  let ?h = "CreateHand [12, 0, 1, 2, 3]"
  have hits: "face_hit ?h 12 \<and> face_hit ?h 0 \<and> face_hit ?h 1 \<and> face_hit ?h 2 \<and> face_hit ?h 3"
    by (simp add: face_hit_def hand_eval)
  have none: "\<not> list_ex (run5 ?h) [12, 11, 10, 9, 8, 7, 6, 5, 4]"
    by (simp add: run5_def face_hit_def hand_eval)
  note c8 = straightScore_descending_no_wheel [of ?h]
  have eq: "straightScore ?h = straight_spec ?h"
    by (rule conjunct1 [OF c8])
  have zero: "straightScore ?h = 0"
    using conjunct2 [OF c8] hits none by blast
  show ?thesis
    using hits none eq zero by blast
qed

section \<open>Tiers of the rank\<close>

subsection \<open>Every scorer returns at most 13\<close>

lemma face_succ_le: "(f :: 8 word) \<le> 12 \<Longrightarrow> f + 1 \<le> 13"
  by (simp add: word_le_nat_alt unat_word_ariths)

lemma face_succ_neq0: "(f :: 8 word) \<le> 12 \<Longrightarrow> f + 1 \<noteq> 0"
  by (metis add.commute add.right_neutral add_diff_cancel_left' wrapped_face diff_0)

lemma all_faces_le: "f \<in> set all_faces \<Longrightarrow> f \<le> 12"
  by (auto simp: all_faces_list)

lemma max_fold_le:
  fixes mx :: Face
  shows "\<forall>f\<in>set fs. f \<le> 12 \<Longrightarrow> mx \<le> 13 \<Longrightarrow>
         fold (\<lambda>f mx. if C f mx then f + 1 else mx) fs mx \<le> 13"
  by (induction fs arbitrary: mx) (simp_all add: face_succ_le)

lemma max_flag_fold_le:
  fixes mx :: Face
  shows "\<forall>f\<in>set fs. f \<le> 12 \<Longrightarrow> mx \<le> 13 \<Longrightarrow>
         fst (fold (\<lambda>f (mx, hasTwo). (if C f mx then f + 1 else mx, D f hasTwo)) fs (mx, b)) \<le> 13"
  by (induction fs arbitrary: mx b) (simp_all add: face_succ_le)

lemma max_count_fold_le:
  fixes mx :: Face and n :: nat
  shows "\<forall>f\<in>set fs. f \<le> 12 \<Longrightarrow> mx \<le> 13 \<Longrightarrow>
         fst (fold (\<lambda>f (mx, pairCount).
                if A f then (if C f mx then f + 1 else mx, pairCount + 1) else (mx, pairCount))
              fs (mx, n)) \<le> 13"
  by (induction fs arbitrary: mx n) (simp_all add: face_succ_le)

lemma threeKindScore_le: "threeKindScore fc \<le> 13"
  unfolding threeKindScore_def by (rule max_fold_le) (simp_all add: all_faces_le)

lemma pairScore_le: "pairScore fc \<le> 13"
  unfolding pairScore_def by (rule max_fold_le) (simp_all add: all_faces_le)

lemma fullHouseScore_le: "fullHouseScore fc \<le> 13"
proof -
  have "fst (fold (\<lambda>f (mx, hasTwo).
          (if fc ! unat f = 3 \<and> f > mx then f + 1 else mx,
           if fc ! unat f = 2 then True else hasTwo)) all_faces (0, False)) \<le> 13"
    by (rule max_flag_fold_le) (simp_all add: all_faces_le)
  then show ?thesis
    by (simp add: fullHouseScore_def case_prod_beta)
qed

lemma twoPairScore_le: "twoPairScore fc \<le> 13"
proof -
  have "fst (fold (\<lambda>f (mx, pairCount).
          if fc ! unat f = 2 then (if f + 1 > mx then f + 1 else mx, pairCount + 1)
          else (mx, pairCount)) all_faces (0, 0 :: nat)) \<le> 13"
    by (rule max_count_fold_le) (simp_all add: all_faces_le)
  then show ?thesis
    by (simp add: twoPairScore_def case_prod_beta)
qed

lemma highCard_loop_le: "highCard_loop fc f \<le> 13"
  by (induction fc f rule: highCard_loop.induct) (simp add: face_succ_le)

lemma highCardScore_le: "highCardScore fc \<le> 13"
  by (simp add: highCardScore_def highCard_loop_le del: highCard_loop.simps)

lemma first_run_le: "\<forall>t\<in>set ts. t \<le> 12 \<Longrightarrow> first_run h ts \<le> 13"
  by (induction ts) (simp_all add: face_succ_le)

lemma straightScore_le: "straightScore h \<le> 13"
  unfolding straightScore_closed straight_spec_def by (rule first_run_le) simp

lemma card_Suit_lt: "(c :: 8 word) < 52 \<Longrightarrow> unat (card_Suit c) < 4"
  by (simp add: card_Suit_def unat_div word_less_nat_alt) 

lemma card_Face_le: "card_Face c \<le> 12"
proof -
  have "unat (c mod 13) < 13"
    by (simp add: unat_mod)
  then show ?thesis
    by (simp add: card_Face_def word_le_nat_alt)
qed

lemma flush_loop_le:
  "length SuitMax = 4 \<Longrightarrow> \<forall>x\<in>set SuitMax. x \<le> 13 \<Longrightarrow> \<forall>c\<in>set cs. c < 52 \<Longrightarrow>
   flush_loop h cs SuitCount SuitMax \<le> 13"
proof (induction cs arbitrary: SuitCount SuitMax)
  case Nil
  then show ?case by simp
next
  case (Cons c cs)
  let ?s = "unat (card_Suit c)"
  let ?SuitMax' = "if SuitMax ! ?s < card_Face c + 1 then SuitMax[?s := card_Face c + 1] else SuitMax"
  have s: "?s < 4" using Cons.prems(3) by (simp add: card_Suit_lt)
  have f: "card_Face c + 1 \<le> 13" by (simp add: card_Face_le face_succ_le)
  have len: "length ?SuitMax' = 4" using Cons.prems(1) by simp
  have all: "\<forall>x\<in>set ?SuitMax'. x \<le> 13"
    using Cons.prems(2) f by (auto dest: set_update_subset_insert [THEN subsetD])
  have nth: "?SuitMax' ! ?s \<le> 13"
    using all len s by (metis nth_mem)
  have rest: "\<forall>c\<in>set cs. c < 52" using Cons.prems(3) by simp
  show ?case
    using Cons.IH [OF len all rest] Cons.IH [OF Cons.prems(1,2) rest] nth
    by (simp add: Let_def)
qed

lemma cards_lt: "c \<in> set (cards_from 0) \<Longrightarrow> c < 52"
  by (auto simp: cards_from_0)

lemma flushScore_le: "flushScore h \<le> 13"
  unfolding flushScore_def
  by (rule flush_loop_le) (simp_all add: cards_lt)

lemma fourKind_loop_found:
  "g \<le> f \<Longrightarrow> f \<le> 12 \<Longrightarrow> fc ! unat g = 4 \<Longrightarrow> fourKind_loop fc f \<noteq> 0"
proof (induction fc f rule: fourKind_loop.induct)
  case (1 fc f)
  show ?case
  proof (cases "fc ! unat f = 4")
    case True
    with "1.prems" show ?thesis
      by (subst fourKind_loop.simps) (simp add: face_succ_neq0 del: fourKind_loop.simps)
  next
    case False
    with "1.prems" have "g \<noteq> f" by auto
    with "1.prems" have lt: "unat g < unat f"
      by (simp add: word_less_nat_alt [symmetric])
    then have "f \<noteq> 0" by auto
    then have u: "unat (f - 1) = unat f - 1" by (rule unat_minus_one)
    have g: "g \<le> f - 1"
      using lt by (simp add: word_le_nat_alt u)
    have f: "f - 1 \<le> 12"
      using "1.prems"(2) by (simp add: word_le_nat_alt u)
    have "fourKind_loop fc (f - 1) \<noteq> 0"
      using "1.IH" [OF "1.prems"(2) False g f "1.prems"(3)] .
    then show ?thesis
      using "1.prems"(2) False
      by (subst fourKind_loop.simps) (simp del: fourKind_loop.simps)
  qed
qed

lemma fourKind_loop_none:
  "\<forall>g :: Face. g \<le> 12 \<longrightarrow> fc ! unat g \<noteq> 4 \<Longrightarrow> fourKind_loop fc f = 0"
proof (induction fc f rule: fourKind_loop.induct)
  case (1 fc f)
  show ?case
  proof (cases "f \<le> 12")
    case True
    then have ne: "fc ! unat f \<noteq> 4" using "1.prems" by blast
    have "fourKind_loop fc (f - 1) = 0"
      using "1.IH" [OF True ne "1.prems"] .
    then show ?thesis
      using True ne by (subst fourKind_loop.simps) (simp del: fourKind_loop.simps)
  next
    case False
    then show ?thesis
      by (subst fourKind_loop.simps) (simp del: fourKind_loop.simps)
  qed
qed

lemma has_tally_iff:
  "has_tally h k \<longleftrightarrow> (\<exists>g :: Face. g \<le> 12 \<and> FaceCounts h ! unat g = k)"
proof
  assume "has_tally h k"
  then obtain f where "f \<in> set all_faces" and "FaceCounts h ! unat f = k"
    unfolding has_tally_def list_ex_iff by blast
  then show "\<exists>g :: Face. g \<le> 12 \<and> FaceCounts h ! unat g = k"
    using all_faces_le by blast
next
  assume "\<exists>g :: Face. g \<le> 12 \<and> FaceCounts h ! unat g = k"
  then obtain g :: Face where g: "g \<le> 12" "FaceCounts h ! unat g = k" by blast
  have "unat g \<le> 12" using g(1) by (simp add: word_le_nat_alt)
  then have "unat g \<in> set [0 ..< 13]" by simp
  then have "of_nat (unat g) \<in> set all_faces"
    unfolding all_faces_def set_map by (rule imageI)
  then have "g \<in> set all_faces" by simp
  with g(2) show "has_tally h k"
    unfolding has_tally_def list_ex_iff by blast
qed

lemma fourKindScore_nonzero:
  assumes "has_tally h 4"
  shows "fourKindScore (FaceCounts h) \<noteq> 0"
proof -
  obtain g :: Face where g: "g \<le> 12" "FaceCounts h ! unat g = 4"
    using assms unfolding has_tally_iff by blast
  have "(12 :: Face) \<le> 12" by simp
  from fourKind_loop_found [OF g(1) this g(2)] show ?thesis
    unfolding fourKindScore_def .
qed

lemma fourKindScore_zero:
  assumes "\<not> has_tally h 4"
  shows "fourKindScore (FaceCounts h) = 0"
proof -
  have "\<forall>g :: Face. g \<le> 12 \<longrightarrow> FaceCounts h ! unat g \<noteq> 4"
    using assms unfolding has_tally_iff by blast
  then show ?thesis
    unfolding fourKindScore_def by (rule fourKind_loop_none)
qed

subsection \<open>Scores of the four-of-a-kind tier and of the tiers below\<close>

lemma tier_unat:
  fixes s :: "8 word" and w :: "32 word"
  assumes "unat w \<le> 104"
  shows "unat (ucast s + w) = unat s + unat w"
proof -
  have "unat s < 2 ^ LENGTH(8)" by (rule unsigned_less)
  then have s: "unat s < 256" by simp
  have u: "unat (ucast s :: 32 word) = unat s"
    using s by (simp add: unsigned_ucast_eq take_bit_nat_eq_self)
  have "unat (ucast s + w) = (unat s + unat w) mod 2 ^ 32"
    by (simp add: unat_word_ariths u)
  also have "\<dots> = unat s + unat w"
    using s assms by simp
  finally show ?thesis .
qed

lemma ucast_unat: "unat (ucast (s :: 8 word) :: 32 word) = unat s"
  using tier_unat [of 0 s] by simp

lemma scorer_unat_le: "(s :: 8 word) \<le> 13 \<Longrightarrow> unat s \<le> 13"
  by (simp add: word_le_nat_alt)

lemma scorer_unat_pos: "(s :: 8 word) \<noteq> 0 \<Longrightarrow> 1 \<le> unat s"
  by (simp add: unat_gt_0 Suc_leI)

lemma Score_four_kind_lower:
  assumes "has_tally q 4"
  shows "92 \<le> unat (Score q)"
proof (cases "straightFlushScore q = 0")
  case True
  have "fourKindScore (FaceCounts q) \<noteq> 0"
    using assms by (rule fourKindScore_nonzero)
  then show ?thesis
    using True scorer_unat_pos [of "fourKindScore (FaceCounts q)"]
    by (simp add: Score_def Let_def tier_unat)
next
  case False
  then show ?thesis
    using scorer_unat_pos [of "straightFlushScore q"]
    by (simp add: Score_def Let_def tier_unat)
qed

lemma Score_below_four_kind:
  assumes "straightFlushScore f = 0" and "\<not> has_tally f 4"
  shows "unat (Score f) \<le> 91"
proof -
  let ?fc = "FaceCounts f"
  have fk: "fourKindScore ?fc = 0"
    using assms(2) by (rule fourKindScore_zero)
  note le = scorer_unat_le [OF fullHouseScore_le [of ?fc]] scorer_unat_le [OF flushScore_le [of f]]
    scorer_unat_le [OF straightScore_le [of f]] scorer_unat_le [OF threeKindScore_le [of ?fc]]
    scorer_unat_le [OF twoPairScore_le [of ?fc]] scorer_unat_le [OF pairScore_le [of ?fc]]
    scorer_unat_le [OF highCardScore_le [of ?fc]]
  show ?thesis
    using le by (simp add: Score_def Let_def assms(1) fk tier_unat ucast_unat)
qed

text \<open>
  Claim C6 says that every hand with a face of tally 4 outscores every hand with a
  face of tally 3 and another of tally 2. A hand may hold up to 52 cards, and a hand
  of tallies 4, 3 and 2 is itself ranked in the four-of-a-kind tier: the four 2s score
  92, and the nine cards A A A A K K K Q Q score 104.
\<close>

theorem full_house_with_four_kind_outscores:
  "has_tally (CreateHand [0, 13, 26, 39]) 4 \<and>
   has_tally (CreateHand [12, 25, 38, 51, 11, 24, 37, 10, 23]) 3 \<and>
   has_tally (CreateHand [12, 25, 38, 51, 11, 24, 37, 10, 23]) 2 \<and>
   Score (CreateHand [0, 13, 26, 39]) = 92 \<and>
   Score (CreateHand [12, 25, 38, 51, 11, 24, 37, 10, 23]) = 104 \<and>
   \<not> Score (CreateHand [0, 13, 26, 39]) >
       Score (CreateHand [12, 25, 38, 51, 11, 24, 37, 10, 23])"
proof -
  have q: "has_tally (CreateHand [0, 13, 26, 39]) 4"
    by (simp add: has_tally_def FaceCounts_def hand_eval)
  have f: "has_tally (CreateHand [12, 25, 38, 51, 11, 24, 37, 10, 23]) 3 \<and>
           has_tally (CreateHand [12, 25, 38, 51, 11, 24, 37, 10, 23]) 2"
    by (simp add: has_tally_def FaceCounts_def hand_eval)
  have sq: "Score (CreateHand [0, 13, 26, 39]) = 92"
    by (simp add: Score_def FaceCounts_def hand_eval scorer_defs)
  have sf: "Score (CreateHand [12, 25, 38, 51, 11, 24, 37, 10, 23]) = 104"
    by (simp add: Score_def FaceCounts_def hand_eval scorer_defs)
  show ?thesis
    by (simp add: q f sq sf)
qed

text \<open>
  Claim C6 as amended. Every hand with a face of tally 4 outscores every full-house
  hand (a face of tally 3 and another of tally 2) that has no face of tally 4 and no
  straight flush.
\<close>

theorem four_kind_beats_full_house:
  assumes "has_tally q 4"
    and "has_tally f 3" and "has_tally f 2"
    and "\<not> has_tally f 4" and "straightFlushScore f = 0"
  shows "Score q > Score f"
  using Score_four_kind_lower [OF assms(1)] Score_below_four_kind [OF assms(5,4)]
  by (simp add: word_less_nat_alt)

theorem four_kind_beats_full_house_witness:
  "has_tally (CreateHand [0, 13, 26, 39]) 4 \<and>
   has_tally (CreateHand [11, 24, 37, 10, 23]) 3 \<and>
   has_tally (CreateHand [11, 24, 37, 10, 23]) 2 \<and>
   \<not> has_tally (CreateHand [11, 24, 37, 10, 23]) 4 \<and>
   straightFlushScore (CreateHand [11, 24, 37, 10, 23]) = 0 \<and>
   Score (CreateHand [0, 13, 26, 39]) > Score (CreateHand [11, 24, 37, 10, 23])"
proof -
  have q: "has_tally (CreateHand [0, 13, 26, 39]) 4"
    by (simp add: has_tally_def FaceCounts_def hand_eval)
  have f3: "has_tally (CreateHand [11, 24, 37, 10, 23]) 3"
    by (simp add: has_tally_def FaceCounts_def hand_eval)
  have f2: "has_tally (CreateHand [11, 24, 37, 10, 23]) 2"
    by (simp add: has_tally_def FaceCounts_def hand_eval)
  have f4: "\<not> has_tally (CreateHand [11, 24, 37, 10, 23]) 4"
    by (simp add: has_tally_def FaceCounts_def hand_eval)
  have sf: "straightFlushScore (CreateHand [11, 24, 37, 10, 23]) = 0"
    by (simp add: hand_eval scorer_defs)
  show ?thesis
    using q f3 f2 f4 sf four_kind_beats_full_house [OF q f3 f2 f4 sf] by blast
qed

end
